theory Spec2Isabelle
  imports Main "HOL-Library.Word"
begin

section \<open>Package algebra: integers and errors\<close>

text \<open>
  The Go type \<^verbatim>\<open>Integer\<close> is an arbitrary-precision integer (\<^verbatim>\<open>math/big\<close>), so it is
  \<^typ>\<open>int\<close> here. A byte is an 8-bit word. Every way an operation can stop without a
  result (an error return or a run-time panic) is a value of \<open>error\<close>; \<open>InvalidField\<close>
  is the error kind the design names for arithmetic between different moduli.
\<close>

type_synonym Integer = int
type_synonym byte = "8 word"

datatype error = DivisionByZero | NotInvertible | InvalidField | NotInField | ReadError

text \<open>
  Modelled from the spec: the package-level values \<^verbatim>\<open>Zero\<close> and \<^verbatim>\<open>One\<close> and the helpers
  \<^verbatim>\<open>FromInt64\<close>, \<^verbatim>\<open>Cmp\<close>, \<^verbatim>\<open>Mod\<close>, \<^verbatim>\<open>ModAdd\<close>, \<^verbatim>\<open>ModSub\<close>, \<^verbatim>\<open>ModMul\<close>, \<^verbatim>\<open>ModInv\<close> and
  \<^verbatim>\<open>ModDiv\<close> that \<^verbatim>\<open>ff.go\<close> calls are declared in a file of package algebra that is
  not among the sources. The design (4.A) gives them as modular +, -, *, division and
  inverse "via extended Euclidean / modular inverse", with all results reduced mod q
  and inversion of a non-invertible element failing with NotInvertible. \<^verbatim>\<open>Cmp\<close> is the
  three-way comparison that \<^verbatim>\<open>ff.go\<close> itself uses on integers (\<open>-1\<close>, \<open>0\<close>, \<open>1\<close>). The
  reduction is the Euclidean one (result in \<open>[0, |m|)\<close>); a zero modulus is a
  division by zero.
\<close>

definition Zero :: Integer where
  "Zero = 0"

definition One :: Integer where
  "One = 1"

definition FromInt64 :: "64 word \<Rightarrow> Integer" where
  "FromInt64 x = sint x"

definition Cmp :: "Integer \<Rightarrow> Integer \<Rightarrow> int" where
  "Cmp x y = (if x < y then -1 else if x = y then 0 else 1)"

definition Mod :: "Integer \<Rightarrow> Integer \<Rightarrow> error + Integer" where
  "Mod x m = (if m = 0 then Inl DivisionByZero else Inr (x mod \<bar>m\<bar>))"

definition ModAdd :: "Integer \<Rightarrow> Integer \<Rightarrow> Integer \<Rightarrow> error + Integer" where
  "ModAdd x y m = Mod (x + y) m"

definition ModSub :: "Integer \<Rightarrow> Integer \<Rightarrow> Integer \<Rightarrow> error + Integer" where
  "ModSub x y m = Mod (x - y) m"

definition ModMul :: "Integer \<Rightarrow> Integer \<Rightarrow> Integer \<Rightarrow> error + Integer" where
  "ModMul x y m = Mod (x * y) m"

text \<open>
  Extended Euclid on non-negative integers: \<open>egcd a b = (g, s, t)\<close> with
  \<open>g = gcd a b\<close> and \<open>s * a + t * b = g\<close>.
\<close>

function egcd :: "int \<Rightarrow> int \<Rightarrow> int \<times> int \<times> int" where
  "egcd a b =
     (if b \<le> 0 then (a, 1, 0)
      else (case egcd b (a mod b) of (g, s, t) \<Rightarrow> (g, t, s - (a div b) * t)))"
  by pat_completeness auto
termination
  by (relation "measure (\<lambda>(a, b). nat b)") (auto simp: pos_mod_bound)

declare egcd.simps [simp del]

definition ModInv :: "Integer \<Rightarrow> Integer \<Rightarrow> error + Integer" where
  "ModInv x m =
     (if m = 0 then Inl DivisionByZero
      else (case egcd (x mod \<bar>m\<bar>) \<bar>m\<bar> of
              (g, s, t) \<Rightarrow> if g = 1 then Inr (s mod \<bar>m\<bar>) else Inl NotInvertible))"

definition ModDiv :: "Integer \<Rightarrow> Integer \<Rightarrow> Integer \<Rightarrow> error + Integer" where
  "ModDiv x y m =
     (case ModInv y m of Inl e \<Rightarrow> Inl e | Inr i \<Rightarrow> Mod (x * i) m)"

text \<open>
  The standard-library operations \<^verbatim>\<open>ff.go\<close> calls directly: \<^verbatim>\<open>BitLen\<close> is the length
  of the absolute value in bits (0 for 0), \<^verbatim>\<open>SetBytes\<close> reads a big-endian unsigned
  integer.
\<close>

fun BitLen_nat :: "nat \<Rightarrow> nat" where
  "BitLen_nat k = (if k = 0 then 0 else Suc (BitLen_nat (k div 2)))"

declare BitLen_nat.simps [simp del]

definition BitLen :: "Integer \<Rightarrow> nat" where
  "BitLen x = BitLen_nat (nat \<bar>x\<bar>)"

definition SetBytes :: "byte list \<Rightarrow> Integer" where
  "SetBytes buf = foldl (\<lambda>acc b. acc * 256 + uint b) 0 buf"

section \<open>Finite fields and field elements (ff.go)\<close>

text \<open>
  The structs and functions of \<^verbatim>\<open>ff.go\<close>, under their own names. The methods \<^verbatim>\<open>Zero\<close>,
  \<^verbatim>\<open>One\<close> and \<^verbatim>\<open>Cmp\<close> of \<^verbatim>\<open>FiniteField\<close> carry the receiver's name, since the package
  also has the values \<^verbatim>\<open>Zero\<close>, \<^verbatim>\<open>One\<close> and the function \<^verbatim>\<open>Cmp\<close>; \<^verbatim>\<open>Char\<close> and \<^verbatim>\<open>Field\<close> carry
  a suffix.
\<close>

record FiniteField =
  q :: Integer

record FieldElement =
  n :: Integer
  p :: FiniteField

definition NewFiniteField :: "Integer \<Rightarrow> error + FiniteField" where
  "NewFiniteField m = Inr \<lparr>q = m\<rparr>"

definition FiniteField_Zero :: "FiniteField \<Rightarrow> FieldElement" where
  "FiniteField_Zero ff = \<lparr>n = Zero, p = ff\<rparr>"

definition FiniteField_One :: "FiniteField \<Rightarrow> FieldElement" where
  "FiniteField_One ff = \<lparr>n = One, p = ff\<rparr>"

definition Modulus :: "FiniteField \<Rightarrow> Integer" where
  "Modulus ff = q ff"

definition Char_FF :: "FiniteField \<Rightarrow> Integer" where
  "Char_FF ff = q ff"

text \<open>
  \<^verbatim>\<open>Rand\<close> reads \<open>BitLen q div 8\<close> bytes from the system's random source and returns
  them, read as a big-endian integer, as the element. The random source is an argument:
  \<open>None\<close> is a failing read, \<open>Some s\<close> delivers the bytes \<open>s 0, s 1, ...\<close>. A read into
  an empty buffer asks the source for nothing and cannot fail: it leaves the integer 0.
\<close>

definition Rand :: "FiniteField \<Rightarrow> (nat \<Rightarrow> byte) option \<Rightarrow> error + FieldElement" where
  "Rand ff src =
     (let maxbits = BitLen (q ff);
          len = maxbits div 8
      in if len = 0 then Inr \<lparr>n = SetBytes [], p = ff\<rparr>
         else (case src of
                 None \<Rightarrow> Inl ReadError
               | Some s \<Rightarrow> Inr \<lparr>n = SetBytes (map s [0..<len]), p = ff\<rparr>))"

definition NewFieldElement :: "FiniteField \<Rightarrow> Integer \<Rightarrow> error + FieldElement" where
  "NewFieldElement ff x =
     (case Mod x (q ff) of Inl e \<Rightarrow> Inl e | Inr r \<Rightarrow> Inr \<lparr>n = r, p = ff\<rparr>)"

definition NewFieldElementFromInt64 :: "FiniteField \<Rightarrow> 64 word \<Rightarrow> error + FieldElement" where
  "NewFieldElementFromInt64 ff x = NewFieldElement ff (FromInt64 x)"

definition Add :: "FiniteField \<Rightarrow> FieldElement \<Rightarrow> FieldElement \<Rightarrow> error + FieldElement" where
  "Add ff x y =
     (case ModAdd (n x) (n y) (q ff) of Inl e \<Rightarrow> Inl e | Inr r \<Rightarrow> NewFieldElement ff r)"

definition Sub :: "FiniteField \<Rightarrow> FieldElement \<Rightarrow> FieldElement \<Rightarrow> error + FieldElement" where
  "Sub ff x y =
     (case ModSub (n x) (n y) (q ff) of Inl e \<Rightarrow> Inl e | Inr r \<Rightarrow> NewFieldElement ff r)"

definition Mul :: "FiniteField \<Rightarrow> FieldElement \<Rightarrow> FieldElement \<Rightarrow> error + FieldElement" where
  "Mul ff x y =
     (case ModMul (n x) (n y) (q ff) of Inl e \<Rightarrow> Inl e | Inr r \<Rightarrow> NewFieldElement ff r)"

definition Div :: "FiniteField \<Rightarrow> FieldElement \<Rightarrow> FieldElement \<Rightarrow> error + FieldElement" where
  "Div ff x y =
     (case ModDiv (n x) (n y) (q ff) of Inl e \<Rightarrow> Inl e | Inr r \<Rightarrow> NewFieldElement ff r)"

text \<open>
  \<^verbatim>\<open>New\<close> rejects \<open>n\<close> when \<open>Cmp(n, p) == 1\<close> or \<open>Cmp(n, Zero) == -1\<close>, with the error
  "n not in the F".
\<close>

definition New :: "Integer \<Rightarrow> Integer \<Rightarrow> error + FieldElement" where
  "New x m =
     (if Cmp x m = 1 \<or> Cmp x Zero = -1 then Inl NotInField
      else Inr \<lparr>n = x, p = \<lparr>q = m\<rparr>\<rparr>)"

definition Double :: "FieldElement \<Rightarrow> error + FieldElement" where
  "Double fe = Add (p fe) fe fe"

definition Neg :: "FieldElement \<Rightarrow> error + FieldElement" where
  "Neg fe =
     (case Mod (- n fe) (q (p fe)) of Inl e \<Rightarrow> Inl e | Inr r \<Rightarrow> Inr \<lparr>n = r, p = p fe\<rparr>)"

definition Square :: "FieldElement \<Rightarrow> error + FieldElement" where
  "Square fe = Mul (p fe) fe fe"

text \<open>
  \<^verbatim>\<open>Inv\<close> has no error result in the source: where it fails, it is \<^verbatim>\<open>ModInv\<close> that stops
  the program. \<^verbatim>\<open>Exp\<close> is not embedded: its helper \<^verbatim>\<open>ModExp\<close> is not among the sources and
  nothing below depends on it.
\<close>

definition Inv :: "FieldElement \<Rightarrow> error + FieldElement" where
  "Inv fe =
     (case ModInv (n fe) (q (p fe)) of Inl e \<Rightarrow> Inl e | Inr r \<Rightarrow> Inr \<lparr>n = r, p = p fe\<rparr>)"

definition IsZero :: "FieldElement \<Rightarrow> bool" where
  "IsZero fe \<longleftrightarrow> Cmp (n fe) Zero = 0"

definition Field_FE :: "FieldElement \<Rightarrow> FiniteField" where
  "Field_FE fe = p fe"

definition Big :: "FieldElement \<Rightarrow> Integer" where
  "Big fe = n fe"

definition Equal :: "FieldElement \<Rightarrow> FieldElement \<Rightarrow> bool" where
  "Equal fe other =
     (if Cmp (Modulus (p fe)) (Modulus (p other)) \<noteq> 0 \<or> Cmp (n fe) (n other) \<noteq> 0
      then False else True)"

definition FiniteField_Cmp :: "FiniteField \<Rightarrow> FieldElement \<Rightarrow> FieldElement \<Rightarrow> int" where
  "FiniteField_Cmp ff x y =
     (if Cmp (q (p x)) (q (p y)) \<noteq> 0 then -1 else Cmp (n x) (n y))"

text \<open>
  A prime modulus, as the design requires of a field: greater than 1 and without a
  divisor in \<open>[2, m)\<close>.
\<close>

definition is_prime :: "Integer \<Rightarrow> bool" where
  "is_prime m \<longleftrightarrow> 1 < m \<and> (\<forall>d \<in> {2..<m}. \<not> d dvd m)"

text \<open>The stored integer of a field element is reduced: it lies in \<open>[0, q)\<close>.\<close>

definition reduced :: "FieldElement \<Rightarrow> bool" where
  "reduced fe \<longleftrightarrow> 0 \<le> n fe \<and> n fe < q (p fe)"

section \<open>Polynomials (package poly)\<close>

text \<open>
  Modelled from the spec: package poly is not among the sources; only its callers are.
  The design (3, 4.B) gives a polynomial as the dense sequence of its coefficients,
  little-endian (index \<open>i\<close> is the coefficient of \<open>x\<^sup>i\<close>), reduced and canonicalised by
  every operation: trailing zero coefficients are removed and the zero polynomial is
  \<open>[0]\<close>. \<^verbatim>\<open>Add\<close> adds coefficientwise, \<^verbatim>\<open>Mul\<close> is the schoolbook product, \<^verbatim>\<open>ScalarMul\<close>
  multiplies every coefficient by a scalar, \<^verbatim>\<open>Eval\<close> is Horner's rule,
  \<^verbatim>\<open>NewPolynomialBigInt\<close> is the constant polynomial, \<^verbatim>\<open>Clone(shift)\<close> has at index \<open>i\<close>
  the coefficient at \<open>i + shift\<close>, and the degree is the length of the canonical form
  minus one (0 for the zero polynomial).
\<close>

type_synonym Polynomial = "Integer list"

definition coeff :: "Polynomial \<Rightarrow> nat \<Rightarrow> Integer" where
  "coeff cs k = (if k < length cs then cs ! k else 0)"

definition trim :: "Integer list \<Rightarrow> Polynomial" where
  "trim cs = (case dropWhile (\<lambda>c. c = 0) (rev cs) of [] \<Rightarrow> [0] | r # rs \<Rightarrow> rev (r # rs))"

definition canonical :: "Polynomial \<Rightarrow> bool" where
  "canonical cs \<longleftrightarrow> cs = [0] \<or> (cs \<noteq> [] \<and> last cs \<noteq> 0)"

definition NewPolynomialInts :: "Integer list \<Rightarrow> Polynomial" where
  "NewPolynomialInts cs = trim cs"

definition NewPolynomialBigInt :: "Integer \<Rightarrow> Polynomial" where
  "NewPolynomialBigInt x = [x]"

definition Clone :: "Polynomial \<Rightarrow> nat \<Rightarrow> Polynomial" where
  "Clone cs shift = drop shift cs"

definition Degree :: "Polynomial \<Rightarrow> nat" where
  "Degree cs = length (trim cs) - 1"

definition poly_Add :: "Polynomial \<Rightarrow> Polynomial \<Rightarrow> Integer \<Rightarrow> Polynomial" where
  "poly_Add a b m =
     trim (map (\<lambda>k. (coeff a k + coeff b k) mod m) [0..<max (length a) (length b)])"

definition poly_Mul :: "Polynomial \<Rightarrow> Polynomial \<Rightarrow> Integer \<Rightarrow> Polynomial" where
  "poly_Mul a b m =
     trim (map (\<lambda>k. (\<Sum>i\<leftarrow>[0..<Suc k]. coeff a i * coeff b (k - i)) mod m)
             [0..<length a + length b - 1])"

definition ScalarMul :: "Polynomial \<Rightarrow> Integer \<Rightarrow> Integer \<Rightarrow> Polynomial" where
  "ScalarMul a s m = trim (map (\<lambda>c. (c * s) mod m) a)"

definition Eval :: "Polynomial \<Rightarrow> Integer \<Rightarrow> Integer \<Rightarrow> Integer" where
  "Eval cs x m = foldr (\<lambda>c acc. (c + x * acc) mod m) cs 0"

section \<open>The Fiat-Shamir channel\<close>

text \<open>
  Modelled from the spec: the channel (\<^verbatim>\<open>NewChannel\<close>, \<^verbatim>\<open>Send\<close>, \<^verbatim>\<open>RandFE\<close> and the
  bounded-integer squeeze) is not among the sources; only its callers are. The design
  (3, 4.D) gives it a rolling 32-byte state, all zero at first, and a log of strings:
  \<^verbatim>\<open>Send(bytes)\<close> sets the state to the hash of state and bytes and logs the bytes in
  hex; a squeeze derives the next state as the hash of state and a tag, reads it as
  an integer, reduces it (mod \<open>q\<close>, or into \<open>[min, max]\<close> as
  \<open>min + value mod (max - min + 1)\<close>), logs the value in decimal and advances the state
  to the derived hash. SHA-256 belongs to the standard library and the tag is left
  open by the design, so both are arguments: \<open>H\<close> and \<open>tag\<close>.
\<close>

record Channel =
  State :: "byte list"
  Proof :: "string list"

definition hex_digit :: "nat \<Rightarrow> char" where
  "hex_digit k = ''0123456789abcdef'' ! k"

definition hex :: "byte list \<Rightarrow> string" where
  "hex bs = concat (map (\<lambda>b. [hex_digit (unat b div 16), hex_digit (unat b mod 16)]) bs)"

fun decimal_nat :: "nat \<Rightarrow> string" where
  "decimal_nat k =
     (if k < 10 then [hex_digit k] else decimal_nat (k div 10) @ [hex_digit (k mod 10)])"

declare decimal_nat.simps [simp del]

definition decimal :: "Integer \<Rightarrow> string" where
  "decimal x = (if x < 0 then CHR ''-'' # decimal_nat (nat (- x)) else decimal_nat (nat x))"

definition NewChannel :: Channel where
  "NewChannel = \<lparr>State = replicate 32 0, Proof = []\<rparr>"

definition Send :: "(byte list \<Rightarrow> byte list) \<Rightarrow> byte list \<Rightarrow> Channel \<Rightarrow> Channel" where
  "Send H bytes ch = \<lparr>State = H (State ch @ bytes), Proof = Proof ch @ [hex bytes]\<rparr>"

definition RandFE ::
  "(byte list \<Rightarrow> byte list) \<Rightarrow> byte list \<Rightarrow> Integer \<Rightarrow> Channel \<Rightarrow> Integer \<times> Channel" where
  "RandFE H tag m ch =
     (let derived = H (State ch @ tag);
          v = SetBytes derived mod m
      in (v, \<lparr>State = derived, Proof = Proof ch @ [decimal v]\<rparr>))"









section \<open>The prover (package stark)\<close>

text \<open>
  The domain parameters that \<^verbatim>\<open>main\<close> and the tests load from \<^verbatim>\<open>domainparams.json\<close>.
\<close>

record DomainParameters =
  Trace :: "FieldElement list"
  GeneratorG :: FieldElement
  SubgroupG :: "FieldElement list"
  GeneratorH :: FieldElement
  SubgroupH :: "FieldElement list"
  EvaluationDomain :: "FieldElement list"
  Polynomial :: Polynomial
  PolynomialEvaluations :: "FieldElement list"
  EvaluationRoot :: "byte list"

text \<open>
  What the prover uses and the sources do not hold is an argument of the model:
  SHA-256 and the squeeze tag of the channel, the package variable \<^verbatim>\<open>PrimeField\<close>, the
  constraint builder \<^verbatim>\<open>GenerateProgramConstraints\<close> and the Merkle root \<^verbatim>\<open>DomainHash\<close>.
\<close>

record Env =
  sha256 :: "byte list \<Rightarrow> byte list"
  tag :: "byte list"
  PrimeField :: FiniteField
  GenerateProgramConstraints :: "Polynomial \<Rightarrow> FieldElement \<Rightarrow> Polynomial \<times> Polynomial \<times> Polynomial"
  DomainHash :: "FieldElement list \<Rightarrow> byte list"

text \<open>
  The composition loop of \<^verbatim>\<open>main\<close> and of the tests, \<^verbatim>\<open>for i := 0; i < 3; i++\<close>: each
  round squeezes \<^verbatim>\<open>randomFE\<close> from the channel, multiplies \<^verbatim>\<open>constraints[i]\<close> by the
  constant polynomial \<^verbatim>\<open>randomFE\<close> and adds the product to \<^verbatim>\<open>compositionPoly\<close>, which
  starts as \<^verbatim>\<open>NewPolynomialInts(0)\<close>.
\<close>

function composition_loop ::
  "Env \<Rightarrow> Polynomial list \<Rightarrow> nat \<Rightarrow> Polynomial \<Rightarrow> Channel \<Rightarrow> Polynomial \<times> Channel" where
  "composition_loop env constraints i compositionPoly fsChannel =
     (if i < 3 then
        (case RandFE (sha256 env) (tag env) (Modulus (PrimeField env)) fsChannel of
           (randomFE, fsChannel') \<Rightarrow>
             (let comb = poly_Mul (constraints ! i) (NewPolynomialBigInt randomFE)
                           (Modulus (PrimeField env));
                  compositionPoly' = poly_Add compositionPoly comb (Modulus (PrimeField env))
              in composition_loop env constraints (i + 1) compositionPoly' fsChannel'))
      else (compositionPoly, fsChannel))"
  by pat_completeness auto
termination
  by (relation "measure (\<lambda>(env, constraints, i, compositionPoly, fsChannel). 3 - i)") auto

declare composition_loop.simps [simp del]

text \<open>Three squeezes in a row: the values drawn, in order, and the channel left.\<close>

definition squeeze3 :: "Env \<Rightarrow> Channel \<Rightarrow> Integer list \<times> Channel" where
  "squeeze3 env ch0 =
     (case RandFE (sha256 env) (tag env) (Modulus (PrimeField env)) ch0 of (b0, ch1) \<Rightarrow>
      case RandFE (sha256 env) (tag env) (Modulus (PrimeField env)) ch1 of (b1, ch2) \<Rightarrow>
      case RandFE (sha256 env) (tag env) (Modulus (PrimeField env)) ch2 of (b2, ch3) \<Rightarrow>
        ([b0, b1, b2], ch3))"

text \<open>
  Modelled from the spec: \<^verbatim>\<open>GenerateFRICommitment\<close> is not among the sources; only its
  callers are. The design (4.G) takes the composition polynomial, the domain, the
  evaluations, the root and a channel "already updated with" that root, and repeats
  until the degree is 0: squeeze \<open>\<beta>\<close>; fold the polynomial (even-index coefficients
  plus \<open>\<beta>\<close> times the odd-index ones); square the first half of the domain; evaluate
  the folded polynomial on it; send the Merkle root of the evaluations. The four
  results are the lists of domains, polynomials, layers and roots.
\<close>

record FRICommitment =
  friDomains :: "FieldElement list list"
  friPolys :: "Polynomial list"
  friLayers :: "FieldElement list list"
  friRoots :: "byte list list"

definition even_coeffs :: "Polynomial \<Rightarrow> Polynomial" where
  "even_coeffs cs = map (\<lambda>k. cs ! (2 * k)) [0..<(length cs + 1) div 2]"

definition odd_coeffs :: "Polynomial \<Rightarrow> Polynomial" where
  "odd_coeffs cs = map (\<lambda>k. cs ! (2 * k + 1)) [0..<length cs div 2]"

definition fold_poly :: "Polynomial \<Rightarrow> Integer \<Rightarrow> Integer \<Rightarrow> Polynomial" where
  "fold_poly cs beta m = poly_Add (even_coeffs cs) (ScalarMul (odd_coeffs cs) beta m) m"

definition next_domain :: "FieldElement list \<Rightarrow> Integer \<Rightarrow> FieldElement list" where
  "next_domain d m = map (\<lambda>x. x\<lparr>n := (n x * n x) mod m\<rparr>) (take (length d div 2) d)"

definition next_layer :: "Polynomial \<Rightarrow> FieldElement list \<Rightarrow> Integer \<Rightarrow> FieldElement list" where
  "next_layer cs d m = map (\<lambda>x. x\<lparr>n := Eval cs (n x) m\<rparr>) d"

function FRI_commit_loop ::
  "Env \<Rightarrow> Polynomial \<Rightarrow> FieldElement list \<Rightarrow> FRICommitment \<Rightarrow> Channel
     \<Rightarrow> FRICommitment \<times> Channel" where
  "FRI_commit_loop env cs d acc ch =
     (if 0 < Degree cs then
        (case RandFE (sha256 env) (tag env) (Modulus (PrimeField env)) ch of
           (beta, ch1) \<Rightarrow>
             (let cs' = fold_poly cs beta (Modulus (PrimeField env));
                  d' = next_domain d (Modulus (PrimeField env));
                  e' = next_layer cs' d' (Modulus (PrimeField env));
                  r' = DomainHash env e';
                  ch2 = Send (sha256 env) r' ch1
              in FRI_commit_loop env cs' d'
                   \<lparr>friDomains = friDomains acc @ [d'], friPolys = friPolys acc @ [cs'],
                    friLayers = friLayers acc @ [e'], friRoots = friRoots acc @ [r']\<rparr>
                   ch2))
      else (acc, ch))"
  by pat_completeness auto
termination
proof (relation "measure (\<lambda>(env, cs, d, acc, ch). length cs)")
  show "wf (measure (\<lambda>(env, cs, d, acc, ch). length cs))"
    by simp
next
  fix env :: Env and cs :: Polynomial and d :: "FieldElement list"
    and acc :: FRICommitment and ch :: Channel and x :: "Integer \<times> Channel"
    and beta :: Integer and ch1 :: Channel
    and cs' d' e' r' ch2
  assume deg: "0 < Degree cs"
    and cs': "cs' = fold_poly cs beta (Modulus (PrimeField env))"
  have trim_len: "length (trim xs) \<le> max 1 (length xs)" for xs
  proof (cases "dropWhile (\<lambda>c. c = 0) (rev xs)")
    case Nil
    show ?thesis unfolding trim_def Nil by simp
  next
    case (Cons r rs)
    have "length (dropWhile (\<lambda>c. c = 0) (rev xs)) \<le> length (rev xs)"
      by (rule length_dropWhile_le)
    then have "length (r # rs) \<le> length xs"
      unfolding Cons by simp
    then show ?thesis unfolding trim_def Cons by simp
  qed
  from deg trim_len [of cs] have len: "2 \<le> length cs"
    by (simp add: Degree_def)
  define sm where "sm = ScalarMul (odd_coeffs cs) beta (Modulus (PrimeField env))"
  have sm_len: "length sm \<le> max 1 (length cs div 2)"
    using trim_len [of "map (\<lambda>c. (c * beta) mod Modulus (PrimeField env)) (odd_coeffs cs)"]
    by (simp add: sm_def ScalarMul_def odd_coeffs_def)
  have ev_len: "length (even_coeffs cs) = (length cs + 1) div 2"
    by (simp add: even_coeffs_def)
  have "length cs' \<le> max 1 (max (length (even_coeffs cs)) (length sm))"
    unfolding cs' fold_poly_def poly_Add_def sm_def [symmetric]
    using trim_len [of "map (\<lambda>k. (coeff (even_coeffs cs) k + coeff sm k)
                 mod Modulus (PrimeField env))
             [0..<max (length (even_coeffs cs)) (length sm)]"]
    by simp
  with sm_len ev_len have "length cs' \<le> max 1 ((length cs + 1) div 2)"
    by linarith
  with len have "length cs' < length cs"
    by simp
  then show "((env, cs', d',
        \<lparr>friDomains = friDomains acc @ [d'], friPolys = friPolys acc @ [cs'],
         friLayers = friLayers acc @ [e'], friRoots = friRoots acc @ [r']\<rparr>, ch2),
       env, cs, d, acc, ch) \<in> measure (\<lambda>(env, cs, d, acc, ch). length cs)"
    by simp
qed

declare FRI_commit_loop.simps [simp del]

definition GenerateFRICommitment ::
  "Env \<Rightarrow> Polynomial \<Rightarrow> FieldElement list \<Rightarrow> FieldElement list \<Rightarrow> byte list \<Rightarrow> Channel
     \<Rightarrow> FRICommitment \<times> Channel" where
  "GenerateFRICommitment env compositionPoly domain evals root ch =
     FRI_commit_loop env compositionPoly domain
       \<lparr>friDomains = [domain], friPolys = [compositionPoly], friLayers = [evals],
        friRoots = [root]\<rparr> ch"

text \<open>
  \<^verbatim>\<open>main\<close>, from loading the parameters to the call of \<^verbatim>\<open>GenerateFRICommitment\<close>. The
  evaluation of the composition polynomial over the domain goes through
  \<^verbatim>\<open>PrimeField.NewFieldElement\<close>, which stops the program on a zero modulus.
\<close>

fun map_err :: "('a \<Rightarrow> error + 'b) \<Rightarrow> 'a list \<Rightarrow> error + 'b list" where
  "map_err f [] = Inr []"
| "map_err f (x # xs) =
     (case f x of
        Inl e \<Rightarrow> Inl e
      | Inr y \<Rightarrow> (case map_err f xs of Inl e \<Rightarrow> Inl e | Inr ys \<Rightarrow> Inr (y # ys)))"

definition evaluate_on_domain ::
  "Env \<Rightarrow> Polynomial \<Rightarrow> FieldElement list \<Rightarrow> error + FieldElement list" where
  "evaluate_on_domain env compositionPoly domain =
     map_err (\<lambda>elem. NewFieldElement (PrimeField env)
                (Eval compositionPoly (Big elem) (Modulus (PrimeField env)))) domain"

definition main_composition :: "Env \<Rightarrow> DomainParameters \<Rightarrow> Polynomial \<times> Channel" where
  "main_composition env paramsInstance =
     (let g = GeneratorG paramsInstance;
          f = Polynomial paramsInstance;
          fsChannel = Send (sha256 env) (EvaluationRoot paramsInstance) NewChannel;
          f = Clone f 0
      in case GenerateProgramConstraints env f g of
           (quoPolyConstraint1, quoPolyConstraint2, quoPolyConstraint3) \<Rightarrow>
             composition_loop env [quoPolyConstraint1, quoPolyConstraint2, quoPolyConstraint3]
               0 (NewPolynomialInts [0]) fsChannel)"

definition main :: "Env \<Rightarrow> DomainParameters \<Rightarrow> error + FRICommitment \<times> Channel" where
  "main env paramsInstance =
     (case main_composition env paramsInstance of
        (compositionPoly, fsChannel) \<Rightarrow>
          (case evaluate_on_domain env compositionPoly (EvaluationDomain paramsInstance) of
             Inl e \<Rightarrow> Inl e
           | Inr compositionPolyEvals \<Rightarrow>
               (let compositionPolyEvalsRoot = DomainHash env compositionPolyEvals
                in Inr (GenerateFRICommitment env compositionPoly
                          (EvaluationDomain paramsInstance) compositionPolyEvals
                          compositionPolyEvalsRoot fsChannel))))"

text \<open>
  The same steps in \<^verbatim>\<open>TestZKGen/TestProve\<close>, from the composition loop to the call of
  \<^verbatim>\<open>GenerateFRICommitment\<close>, on the channel and the constraints the test has at that
  point: the test sends the root of the composition evaluations before the call.
\<close>

definition TestProve_commit ::
  "Env \<Rightarrow> DomainParameters \<Rightarrow> Channel \<Rightarrow> Polynomial \<Rightarrow> Polynomial \<Rightarrow> Polynomial
     \<Rightarrow> error + FRICommitment \<times> Channel" where
  "TestProve_commit env paramsInstance fsChannel quoPolyConstraint1 quoPolyConstraint2
       quoPolyConstraint3 =
     (case composition_loop env [quoPolyConstraint1, quoPolyConstraint2, quoPolyConstraint3]
             0 (NewPolynomialInts [0]) fsChannel of
        (compositionPoly, fsChannel1) \<Rightarrow>
          (case evaluate_on_domain env compositionPoly (EvaluationDomain paramsInstance) of
             Inl e \<Rightarrow> Inl e
           | Inr compositionPolyEvals \<Rightarrow>
               (let compositionPolyEvalsRoot = DomainHash env compositionPolyEvals;
                    fsChannel2 = Send (sha256 env) compositionPolyEvalsRoot fsChannel1
                in Inr (GenerateFRICommitment env compositionPoly
                          (EvaluationDomain paramsInstance) compositionPolyEvals
                          compositionPolyEvalsRoot fsChannel2))))"

section \<open>A small instance\<close>

text \<open>
  A toy instance on which the theorems below are exercised: the field of modulus 17, a
  two-byte stand-in for the hash, a four-point domain.
\<close>

definition example_env :: Env where
  "example_env =
     \<lparr>sha256 = (\<lambda>bs. [sum_list bs + 1, 3 * sum_list bs + 2]),
      tag = [9],
      PrimeField = \<lparr>q = 17\<rparr>,
      GenerateProgramConstraints = (\<lambda>f g. (f, [n g, 1], [1, 2])),
      DomainHash = (\<lambda>es. map (\<lambda>e. word_of_int (n e)) es)\<rparr>"

definition example_params :: DomainParameters where
  "example_params =
     \<lparr>Trace = [],
      GeneratorG = \<lparr>n = 3, p = \<lparr>q = 17\<rparr>\<rparr>,
      SubgroupG = [],
      GeneratorH = \<lparr>n = 5, p = \<lparr>q = 17\<rparr>\<rparr>,
      SubgroupH = [],
      EvaluationDomain = map (\<lambda>x. \<lparr>n = x, p = \<lparr>q = 17\<rparr>\<rparr>) [1, 2, 4, 8],
      Polynomial = [1, 2, 3],
      PolynomialEvaluations = [],
      EvaluationRoot = [171, 205]\<rparr>"

section \<open>Properties of the field layer\<close>

subsection \<open>The modelled helpers\<close>

lemma Mod_pos: "0 < m \<Longrightarrow> Mod x m = Inr (x mod m)"
  by (simp add: Mod_def)

lemma egcd_correct:
  "0 \<le> a \<Longrightarrow> 0 \<le> b \<Longrightarrow> egcd a b = (g, s, t) \<Longrightarrow> g = gcd a b \<and> s * a + t * b = g"
proof (induction a b arbitrary: g s t rule: egcd.induct)
  case (1 a b)
  show ?case
  proof (cases "b \<le> 0")
    case True
    with "1.prems" have "b = 0" by simp
    with "1.prems" show ?thesis by (simp add: egcd.simps)
  next
    case False
    then have bpos: "0 < b" by simp
    obtain g' s' t' where rec: "egcd b (a mod b) = (g', s', t')"
      by (cases "egcd b (a mod b)") auto
    from "1.prems"(3) False rec have res: "g = g'" "s = t'" "t = s' - (a div b) * t'"
      by (auto simp: egcd.simps [of a b])
    have "0 \<le> a mod b" using bpos by simp
    from "1.IH" [OF False "1.prems"(2) this rec]
    have ih: "g' = gcd b (a mod b)" "s' * b + t' * (a mod b) = g'" by simp_all
    have g: "g = gcd a b" using ih(1) res(1) by (simp add: gcd.commute gcd_red_int [symmetric])
    have amod: "a mod b = a - b * (a div b)"
      by (simp add: minus_mult_div_eq_mod)
    have "s * a + t * b = s' * b + t' * (a mod b)"
      unfolding res amod by (simp add: algebra_simps)
    with ih(2) res(1) g show ?thesis by simp
  qed
qed

lemma is_prime_coprime:
  assumes "is_prime m" "\<not> m dvd x"
  shows "coprime x m"
proof -
  let ?g = "gcd x m"
  have m: "1 < m" using assms(1) by (simp add: is_prime_def)
  have g0: "0 \<le> ?g" by simp
  have gm: "?g dvd m" by simp
  have "?g \<le> m" using gm m by (simp add: zdvd_imp_le)
  moreover have "?g \<noteq> m" using assms(2) by (metis gcd_dvd1)
  moreover have "?g \<noteq> 0" using m by simp
  ultimately have "?g = 1 \<or> (2 \<le> ?g \<and> ?g < m)" using g0 by linarith
  then have "?g = 1 \<or> ?g \<in> {2..<m}" by simp
  then have "?g = 1" using gm assms(1) by (auto simp: is_prime_def)
  then show ?thesis by (simp add: coprime_iff_gcd_eq_1)
qed

lemma ModInv_coprime:
  assumes "0 < m" "coprime x m"
  shows "\<exists>r. ModInv x m = Inr r \<and> 0 \<le> r \<and> r < m \<and> (x * r) mod m = 1 mod m"
proof -
  obtain g s t where e: "egcd (x mod m) m = (g, s, t)"
    by (cases "egcd (x mod m) m") auto
  have "0 \<le> x mod m" using assms(1) by simp
  from egcd_correct [OF this _ e] assms(1)
  have g: "g = gcd (x mod m) m" and bez: "s * (x mod m) + t * m = g" by simp_all
  have "gcd (x mod m) m = gcd x m"
    by (metis gcd.commute gcd_red_int)
  with assms(2) g have g1: "g = 1" by (simp add: coprime_iff_gcd_eq_1)
  have "(x * (s mod m)) mod m = (s * (x mod m) + t * m) mod m"
    by (simp add: mod_mult_right_eq mod_mult_left_eq mult.commute)
  then have "(x * (s mod m)) mod m = 1 mod m" using bez g1 by simp
  moreover have "ModInv x m = Inr (s mod m)"
    using assms(1) e g1 by (simp add: ModInv_def)
  ultimately show ?thesis using assms(1) by simp
qed

lemma ModInv_not_coprime:
  assumes "0 < m" "\<not> coprime x m"
  shows "ModInv x m = Inl NotInvertible"
proof -
  obtain g s t where e: "egcd (x mod m) m = (g, s, t)"
    by (cases "egcd (x mod m) m") auto
  have "0 \<le> x mod m" using assms(1) by simp
  from egcd_correct [OF this _ e] assms(1)
  have g: "g = gcd (x mod m) m" by simp
  have "gcd (x mod m) m = gcd x m"
    by (metis gcd.commute gcd_red_int)
  with assms(2) g have "g \<noteq> 1" by (simp add: coprime_iff_gcd_eq_1)
  then show ?thesis using assms(1) e by (simp add: ModInv_def)
qed

subsection \<open>Which operations keep the stored integer reduced\<close>

lemma NewFieldElement_pos:
  "0 < q ff \<Longrightarrow> NewFieldElement ff x = Inr \<lparr>n = x mod q ff, p = ff\<rparr>"
  by (simp add: NewFieldElement_def Mod_pos)

lemma Zero_One_reduced:
  "1 < q ff \<Longrightarrow> reduced (FiniteField_Zero ff) \<and> reduced (FiniteField_One ff)"
  by (simp add: reduced_def FiniteField_Zero_def FiniteField_One_def Zero_def One_def)

lemma NewFieldElement_reduced:
  "0 < q ff \<Longrightarrow> NewFieldElement ff x = Inr r \<Longrightarrow> reduced r"
  by (auto simp: NewFieldElement_pos reduced_def)

lemma Add_Sub_Mul_Div_reduced:
  assumes "0 < q ff"
  shows "Add ff x y = Inr r \<Longrightarrow> reduced r"
    and "Sub ff x y = Inr r \<Longrightarrow> reduced r"
    and "Mul ff x y = Inr r \<Longrightarrow> reduced r"
    and "Div ff x y = Inr r \<Longrightarrow> reduced r"
  using assms
  by (auto simp: Add_def Sub_def Mul_def Div_def ModAdd_def ModSub_def ModMul_def ModDiv_def
      Mod_pos NewFieldElement_pos reduced_def split: sum.splits)

lemma Neg_reduced: "0 < q (p fe) \<Longrightarrow> Neg fe = Inr r \<Longrightarrow> reduced r"
  by (auto simp: Neg_def Mod_pos reduced_def)

lemma Inv_reduced: "0 < q (p fe) \<Longrightarrow> Inv fe = Inr r \<Longrightarrow> reduced r"
  by (auto simp: Inv_def ModInv_def reduced_def split: prod.splits if_splits)

lemma SetBytes_snoc: "SetBytes (bs @ [b]) = SetBytes bs * 256 + uint b"
  by (simp add: SetBytes_def)

lemma SetBytes_nonneg: "0 \<le> SetBytes bs"
  by (induction bs rule: rev_induct) (simp_all add: SetBytes_snoc SetBytes_def)

text \<open>Below 8 bits of modulus \<^verbatim>\<open>Rand\<close> reads nothing and returns 0, whatever the source.\<close>

lemma Rand_empty_read: "BitLen (q ff) < 8 \<Longrightarrow> Rand ff src = Inr \<lparr>n = 0, p = ff\<rparr>"
  by (simp add: Rand_def SetBytes_def)

text \<open>\<^verbatim>\<open>Rand\<close> never stores a negative integer; only the upper bound can fail.\<close>

lemma Rand_nonneg: "Rand ff src = Inr r \<Longrightarrow> 0 \<le> n r"
  by (auto simp: Rand_def Let_def SetBytes_nonneg split: option.splits if_splits)

text \<open>
  C1. Every element produced by the public field operations, \<^verbatim>\<open>Rand\<close> among them, stores
  an integer in \<open>[0, q)\<close>. \<^verbatim>\<open>Rand\<close> breaks this: it stores the bytes it read without
  reducing them. Over the prime modulus 251 (8 bits, so one byte is read) the byte
  \<open>0xFF\<close> gives the element 255, which is not below 251.
\<close>

theorem Rand_not_reduced:
  "Rand \<lparr>q = 251\<rparr> (Some (\<lambda>i. 255)) = Inr \<lparr>n = 255, p = \<lparr>q = 251\<rparr>\<rparr>
   \<and> \<not> reduced \<lparr>n = 255, p = \<lparr>q = 251\<rparr>\<rparr>"
proof -
  have "Rand \<lparr>q = 251\<rparr> (Some (\<lambda>i. 255)) = Inr \<lparr>n = 255, p = \<lparr>q = 251\<rparr>\<rparr>"
    by code_simp
  moreover have "\<not> reduced \<lparr>n = 255, p = \<lparr>q = 251\<rparr>\<rparr>"
    by (simp add: reduced_def)
  ultimately show ?thesis by simp
qed

text \<open>
  C7 as stated: \<^verbatim>\<open>Add\<close> fails with InvalidField when the operands belong to fields with
  different moduli. It does not: adding 3 of \<open>F\<^sub>5\<close> and 4 of \<open>F\<^sub>1\<^sub>1\<close> in the field of
  modulus 7 returns the element 0 of \<open>F\<^sub>7\<close>.
\<close>

theorem Add_different_moduli_succeeds:
  "q (p \<lparr>n = 3, p = \<lparr>q = 5\<rparr>\<rparr>) \<noteq> q (p \<lparr>n = 4, p = \<lparr>q = 11\<rparr>\<rparr>)
   \<and> Add \<lparr>q = 7\<rparr> \<lparr>n = 3, p = \<lparr>q = 5\<rparr>\<rparr> \<lparr>n = 4, p = \<lparr>q = 11\<rparr>\<rparr> = Inr \<lparr>n = 0, p = \<lparr>q = 7\<rparr>\<rparr>
   \<and> Add \<lparr>q = 7\<rparr> \<lparr>n = 3, p = \<lparr>q = 5\<rparr>\<rparr> \<lparr>n = 4, p = \<lparr>q = 11\<rparr>\<rparr> \<noteq> Inl InvalidField"
  by (simp add: Add_def ModAdd_def Mod_def NewFieldElement_def)

text \<open>
  C7 as amended: \<^verbatim>\<open>Add\<close>, \<^verbatim>\<open>Sub\<close>, \<^verbatim>\<open>Mul\<close> and \<^verbatim>\<open>Div\<close> never fail with InvalidField,
  because they never look at the fields of their operands. Over a receiver field of
  modulus \<open>q > 0\<close>, \<^verbatim>\<open>Add\<close>, \<^verbatim>\<open>Sub\<close> and \<^verbatim>\<open>Mul\<close> always succeed and return the sum,
  difference or product of the stored integers reduced mod \<open>q\<close>, as an element of the
  receiver field; \<^verbatim>\<open>Div\<close> returns \<open>x \<cdot> y\<^sup>-\<^sup>1\<close> reduced mod \<open>q\<close> when the divisor is
  invertible mod \<open>q\<close> and fails with NotInvertible otherwise.
\<close>

theorem field_ops_ignore_operand_fields:
  assumes "0 < q ff"
  shows "Add ff x y = Inr \<lparr>n = (n x + n y) mod q ff, p = ff\<rparr>
       \<and> Sub ff x y = Inr \<lparr>n = (n x - n y) mod q ff, p = ff\<rparr>
       \<and> Mul ff x y = Inr \<lparr>n = (n x * n y) mod q ff, p = ff\<rparr>
       \<and> Div ff x y =
           (if coprime (n y) (q ff)
            then Inr \<lparr>n = (n x * projr (ModInv (n y) (q ff))) mod q ff, p = ff\<rparr>
            else Inl NotInvertible)
       \<and> Div ff x y \<noteq> Inl InvalidField"
proof -
  have a: "Add ff x y = Inr \<lparr>n = (n x + n y) mod q ff, p = ff\<rparr>"
    using assms by (simp add: Add_def ModAdd_def Mod_pos NewFieldElement_pos)
  have s: "Sub ff x y = Inr \<lparr>n = (n x - n y) mod q ff, p = ff\<rparr>"
    using assms by (simp add: Sub_def ModSub_def Mod_pos NewFieldElement_pos)
  have m: "Mul ff x y = Inr \<lparr>n = (n x * n y) mod q ff, p = ff\<rparr>"
    using assms by (simp add: Mul_def ModMul_def Mod_pos NewFieldElement_pos)
  have d: "Div ff x y =
           (if coprime (n y) (q ff)
            then Inr \<lparr>n = (n x * projr (ModInv (n y) (q ff))) mod q ff, p = ff\<rparr>
            else Inl NotInvertible)"
  proof (cases "coprime (n y) (q ff)")
    case True
    from ModInv_coprime [OF assms True] obtain r where "ModInv (n y) (q ff) = Inr r"
      by blast
    with True assms show ?thesis
      by (simp add: Div_def ModDiv_def Mod_pos NewFieldElement_pos)
  next
    case False
    from ModInv_not_coprime [OF assms False] False show ?thesis
      by (simp add: Div_def ModDiv_def)
  qed
  have "Div ff x y \<noteq> Inl InvalidField"
    by (simp add: d)
  with a s m d show ?thesis by simp
qed

theorem field_ops_ignore_operand_fields_witness:
  "0 < q \<lparr>q = 7\<rparr>
   \<and> Add \<lparr>q = 7\<rparr> \<lparr>n = 3, p = \<lparr>q = 5\<rparr>\<rparr> \<lparr>n = 4, p = \<lparr>q = 11\<rparr>\<rparr> = Inr \<lparr>n = 0, p = \<lparr>q = 7\<rparr>\<rparr>
   \<and> Sub \<lparr>q = 7\<rparr> \<lparr>n = 3, p = \<lparr>q = 5\<rparr>\<rparr> \<lparr>n = 4, p = \<lparr>q = 11\<rparr>\<rparr> = Inr \<lparr>n = 6, p = \<lparr>q = 7\<rparr>\<rparr>
   \<and> Mul \<lparr>q = 7\<rparr> \<lparr>n = 3, p = \<lparr>q = 5\<rparr>\<rparr> \<lparr>n = 4, p = \<lparr>q = 11\<rparr>\<rparr> = Inr \<lparr>n = 5, p = \<lparr>q = 7\<rparr>\<rparr>
   \<and> Div \<lparr>q = 7\<rparr> \<lparr>n = 3, p = \<lparr>q = 5\<rparr>\<rparr> \<lparr>n = 4, p = \<lparr>q = 11\<rparr>\<rparr> \<noteq> Inl InvalidField"
proof -
  have h: "0 < q \<lparr>q = 7\<rparr>" by simp
  show ?thesis
    using h field_ops_ignore_operand_fields
            [OF h, of "\<lparr>n = 3, p = \<lparr>q = 5\<rparr>\<rparr>" "\<lparr>n = 4, p = \<lparr>q = 11\<rparr>\<rparr>"]
    by simp
qed

text \<open>
  C8. Over a prime modulus, inverting the zero element fails with NotInvertible, \<^verbatim>\<open>Div\<close>
  by a zero divisor fails with NotInvertible, and inverting a non-zero element of
  the field succeeds: the result is an element \<open>r\<close> of the same field, in \<open>[0, q)\<close>,
  with \<open>x \<cdot> r \<equiv> 1\<close> mod \<open>q\<close>.
\<close>

theorem Inv_fails_exactly_on_zero:
  assumes "is_prime (q ff)"
  shows "(p fe = ff \<and> IsZero fe \<longrightarrow> Inv fe = Inl NotInvertible)
       \<and> (IsZero y \<longrightarrow> Div ff x y = Inl NotInvertible)
       \<and> (p fe = ff \<and> reduced fe \<and> \<not> IsZero fe \<longrightarrow>
            (\<exists>r. Inv fe = Inr \<lparr>n = r, p = ff\<rparr> \<and> reduced \<lparr>n = r, p = ff\<rparr>
                 \<and> (n fe * r) mod q ff = 1))"
proof -
  have m: "1 < q ff" using assms by (simp add: is_prime_def)
  then have pos: "0 < q ff" by simp
  have nz: "\<not> coprime 0 (q ff)" using m by simp
  have z: "ModInv 0 (q ff) = Inl NotInvertible"
    by (rule ModInv_not_coprime [OF pos nz])
  have 1: "p fe = ff \<and> IsZero fe \<longrightarrow> Inv fe = Inl NotInvertible"
    using z by (auto simp: IsZero_def Cmp_def Zero_def Inv_def split: if_splits)
  have 2: "IsZero y \<longrightarrow> Div ff x y = Inl NotInvertible"
    using z by (auto simp: IsZero_def Cmp_def Zero_def Div_def ModDiv_def split: if_splits)
  have 3: "p fe = ff \<and> reduced fe \<and> \<not> IsZero fe \<longrightarrow>
            (\<exists>r. Inv fe = Inr \<lparr>n = r, p = ff\<rparr> \<and> reduced \<lparr>n = r, p = ff\<rparr>
                 \<and> (n fe * r) mod q ff = 1)"
  proof
    assume a: "p fe = ff \<and> reduced fe \<and> \<not> IsZero fe"
    then have rng: "0 < n fe" "n fe < q ff"
      by (auto simp: reduced_def IsZero_def Cmp_def Zero_def split: if_splits)
    then have "\<not> q ff dvd n fe"
      by (simp add: zdvd_not_zless)
    from is_prime_coprime [OF assms this] have "coprime (n fe) (q ff)" .
    from ModInv_coprime [OF pos this] obtain r where
      r: "ModInv (n fe) (q ff) = Inr r" "0 \<le> r" "r < q ff" "(n fe * r) mod q ff = 1 mod q ff"
      by blast
    have "Inv fe = Inr \<lparr>n = r, p = ff\<rparr>"
      using a r(1) by (simp add: Inv_def)
    moreover have "reduced \<lparr>n = r, p = ff\<rparr>"
      using r(2,3) by (simp add: reduced_def)
    moreover have "(n fe * r) mod q ff = 1"
      using r(4) m by simp
    ultimately show "\<exists>r. Inv fe = Inr \<lparr>n = r, p = ff\<rparr> \<and> reduced \<lparr>n = r, p = ff\<rparr>
                 \<and> (n fe * r) mod q ff = 1"
      by blast
  qed
  from 1 2 3 show ?thesis by blast
qed

theorem Inv_fails_exactly_on_zero_witness:
  "is_prime (q \<lparr>q = 7\<rparr>)
   \<and> Inv \<lparr>n = 0, p = \<lparr>q = 7\<rparr>\<rparr> = Inl NotInvertible
   \<and> Div \<lparr>q = 7\<rparr> \<lparr>n = 3, p = \<lparr>q = 7\<rparr>\<rparr> \<lparr>n = 0, p = \<lparr>q = 7\<rparr>\<rparr> = Inl NotInvertible
   \<and> Inv \<lparr>n = 3, p = \<lparr>q = 7\<rparr>\<rparr> = Inr \<lparr>n = 5, p = \<lparr>q = 7\<rparr>\<rparr>
   \<and> (3 * 5) mod 7 = (1 :: int)"
proof -
  have h: "is_prime (q \<lparr>q = 7\<rparr>)" by code_simp
  have z: "IsZero \<lparr>n = 0, p = \<lparr>q = 7\<rparr>\<rparr>" by (simp add: IsZero_def Cmp_def Zero_def)
  have i: "Inv \<lparr>n = 3, p = \<lparr>q = 7\<rparr>\<rparr> = Inr \<lparr>n = 5, p = \<lparr>q = 7\<rparr>\<rparr>" by code_simp
  from Inv_fails_exactly_on_zero
         [OF h, of "\<lparr>n = 0, p = \<lparr>q = 7\<rparr>\<rparr>" "\<lparr>n = 0, p = \<lparr>q = 7\<rparr>\<rparr>" "\<lparr>n = 3, p = \<lparr>q = 7\<rparr>\<rparr>"] z
  have "Inv \<lparr>n = 0, p = \<lparr>q = 7\<rparr>\<rparr> = Inl NotInvertible"
    and "Div \<lparr>q = 7\<rparr> \<lparr>n = 3, p = \<lparr>q = 7\<rparr>\<rparr> \<lparr>n = 0, p = \<lparr>q = 7\<rparr>\<rparr> = Inl NotInvertible"
    by simp_all
  with h i show ?thesis by simp
qed

text \<open>\<^verbatim>\<open>New\<close> succeeds exactly on \<open>0 \<le> n \<le> p\<close>: the upper bound is included.\<close>

lemma New_succeeds_iff: "(\<exists>fe. New x m = Inr fe) \<longleftrightarrow> 0 \<le> x \<and> x \<le> m"
  by (auto simp: New_def Cmp_def Zero_def)

text \<open>
  C9. \<^verbatim>\<open>New(n, p)\<close> succeeds exactly when \<open>n\<close> lies in \<open>[0, p)\<close>. The code rejects
  \<open>n\<close> only when it is greater than \<open>p\<close> or negative, so \<open>n = p\<close> is accepted:
  \<^verbatim>\<open>New(7, 7)\<close> returns the element 7 of the field of modulus 7, which is not reduced.
\<close>

theorem New_accepts_modulus:
  "New 7 7 = Inr \<lparr>n = 7, p = \<lparr>q = 7\<rparr>\<rparr> \<and> \<not> reduced \<lparr>n = 7, p = \<lparr>q = 7\<rparr>\<rparr>"
  by (simp add: New_def Cmp_def Zero_def reduced_def)

text \<open>
  C10. For every integer \<open>x\<close> (negative or beyond \<open>q\<close> included) and every 64-bit \<open>w\<close>,
  \<^verbatim>\<open>NewFieldElement\<close> and \<^verbatim>\<open>NewFieldElementFromInt64\<close> over a modulus \<open>q > 0\<close> return the
  element that stores the representative of the argument in \<open>[0, q)\<close>: it is reduced
  and differs from the argument by a multiple of \<open>q\<close>. \<^verbatim>\<open>Neg\<close> of a reduced element
  is a reduced element of the same field, and the two add up to a multiple of \<open>q\<close>.
\<close>

theorem NewFieldElement_canonical:
  assumes "0 < q ff"
  shows "NewFieldElement ff x = Inr \<lparr>n = x mod q ff, p = ff\<rparr>
       \<and> reduced \<lparr>n = x mod q ff, p = ff\<rparr>
       \<and> q ff dvd (x - x mod q ff)
       \<and> NewFieldElementFromInt64 ff w = Inr \<lparr>n = sint w mod q ff, p = ff\<rparr>
       \<and> reduced \<lparr>n = sint w mod q ff, p = ff\<rparr>
       \<and> q ff dvd (sint w - sint w mod q ff)
       \<and> (p fe = ff \<and> reduced fe \<longrightarrow>
            Neg fe = Inr \<lparr>n = (- n fe) mod q ff, p = ff\<rparr>
            \<and> reduced \<lparr>n = (- n fe) mod q ff, p = ff\<rparr>
            \<and> q ff dvd (n fe + (- n fe) mod q ff))"
proof -
  have r: "\<And>z. reduced \<lparr>n = z mod q ff, p = ff\<rparr>"
    using assms by (simp add: reduced_def)
  have d: "\<And>z. q ff dvd (z - z mod q ff)"
    by (simp add: minus_mod_eq_mult_div)
  have 1: "NewFieldElement ff x = Inr \<lparr>n = x mod q ff, p = ff\<rparr>"
    by (rule NewFieldElement_pos [OF assms])
  have 2: "NewFieldElementFromInt64 ff w = Inr \<lparr>n = sint w mod q ff, p = ff\<rparr>"
    by (simp add: NewFieldElementFromInt64_def FromInt64_def NewFieldElement_pos [OF assms])
  have 3: "p fe = ff \<longrightarrow> Neg fe = Inr \<lparr>n = (- n fe) mod q ff, p = ff\<rparr>"
    using assms by (auto simp: Neg_def Mod_pos)
  have "q ff dvd (- n fe - (- n fe) mod q ff)" by (rule d)
  then have 4: "q ff dvd (n fe + (- n fe) mod q ff)"
    by (metis add.inverse_inverse diff_minus_eq_add dvd_minus_iff minus_diff_eq
        uminus_add_conv_diff add.commute)
  from 1 2 3 4 r d show ?thesis by blast
qed

theorem NewFieldElement_canonical_witness:
  "0 < q \<lparr>q = 7\<rparr>
   \<and> NewFieldElement \<lparr>q = 7\<rparr> (- 9) = Inr \<lparr>n = 5, p = \<lparr>q = 7\<rparr>\<rparr>
   \<and> NewFieldElementFromInt64 \<lparr>q = 7\<rparr> (- 9) = Inr \<lparr>n = 5, p = \<lparr>q = 7\<rparr>\<rparr>
   \<and> Neg \<lparr>n = 3, p = \<lparr>q = 7\<rparr>\<rparr> = Inr \<lparr>n = 4, p = \<lparr>q = 7\<rparr>\<rparr>"
proof -
  have h: "0 < q \<lparr>q = 7\<rparr>" by simp
  have r: "reduced \<lparr>n = 3, p = \<lparr>q = 7\<rparr>\<rparr>" by (simp add: reduced_def)
  show ?thesis
    using h r NewFieldElement_canonical [OF h, of "- 9" "- 9" "\<lparr>n = 3, p = \<lparr>q = 7\<rparr>\<rparr>"]
    by simp
qed

section \<open>Properties of the channel\<close>





section \<open>Properties of the composition polynomial\<close>

lemma coeff_map_upt: "coeff (map f [0..<N]) k = (if k < N then f k else 0)"
  by (simp add: coeff_def)

lemma coeff_append_zeros:
  assumes "\<forall>z \<in> set zs. z = 0"
  shows "coeff (xs @ zs) k = coeff xs k"
  using assms by (auto simp: coeff_def nth_append)

lemma trim_decompose:
  fixes xs :: "int list"
  shows "\<exists>zs. (\<forall>z \<in> set zs. z = 0) \<and> xs = rev (dropWhile (\<lambda>c. c = 0) (rev xs)) @ zs"
proof -
  let ?P = "\<lambda>c::int. c = 0"
  have "rev xs = takeWhile ?P (rev xs) @ dropWhile ?P (rev xs)" by simp
  then have "xs = rev (dropWhile ?P (rev xs)) @ rev (takeWhile ?P (rev xs))"
    by (metis rev_append rev_rev_ident)
  moreover have "\<forall>z \<in> set (rev (takeWhile ?P (rev xs))). z = 0"
    by (auto dest: set_takeWhileD)
  ultimately show ?thesis by blast
qed

lemma coeff_trim: "coeff (trim xs) k = coeff xs k"
proof -
  obtain zs where zs: "\<forall>z \<in> set zs. z = 0"
    and xs: "xs = rev (dropWhile (\<lambda>c. c = 0) (rev xs)) @ zs"
    using trim_decompose by blast
  show ?thesis
  proof (cases "dropWhile (\<lambda>c. c = 0) (rev xs)")
    case Nil
    have "xs = zs" using xs unfolding Nil by simp
    then have "coeff xs k = 0" using zs by (auto simp: coeff_def)
    moreover have "trim xs = [0]" unfolding trim_def Nil by simp
    ultimately show ?thesis by (simp add: coeff_def)
  next
    case (Cons r rs)
    have "trim xs = rev (dropWhile (\<lambda>c. c = 0) (rev xs))" unfolding trim_def Cons by simp
    then show ?thesis using coeff_append_zeros [OF zs] xs by metis
  qed
qed

lemma canonical_trim: "canonical (trim xs)"
proof (cases "dropWhile (\<lambda>c. c = 0) (rev xs)")
  case Nil
  show ?thesis unfolding trim_def Nil by (simp add: canonical_def)
next
  case (Cons r rs)
  have "r = hd (dropWhile (\<lambda>c. c = 0) (rev xs))" unfolding Cons by simp
  then have "r \<noteq> 0" using hd_dropWhile [of "\<lambda>c. c = 0" "rev xs"] Cons by auto
  then show ?thesis unfolding trim_def Cons by (simp add: canonical_def)
qed

lemma coeff_poly_Add: "coeff (poly_Add a b m) k = (coeff a k + coeff b k) mod m"
  by (auto simp: poly_Add_def coeff_trim coeff_map_upt) (simp_all add: coeff_def)

lemma sum_list_zero: "(\<And>x. x \<in> set xs \<Longrightarrow> f x = 0) \<Longrightarrow> (\<Sum>x\<leftarrow>xs. f x) = (0::int)"
  by (induction xs) auto

lemma conv_const: "(\<Sum>i\<leftarrow>[0..<Suc k]. coeff a i * coeff [b] (k - i)) = coeff a k * b"
proof -
  have "(\<Sum>i\<leftarrow>[0..<k]. coeff a i * coeff [b] (k - i)) = 0"
    by (rule sum_list_zero) (simp add: coeff_def)
  then show ?thesis by (simp add: coeff_def)
qed

lemma coeff_poly_Mul_const: "coeff (poly_Mul a [b] m) k = (coeff a k * b) mod m"
proof -
  have "coeff (poly_Mul a [b] m) k = (if k < length a then (coeff a k * b) mod m else 0)"
    by (simp add: poly_Mul_def coeff_trim coeff_map_upt conv_const del: upt_Suc)
  moreover have "\<not> k < length a \<Longrightarrow> coeff a k = 0"
    by (simp add: coeff_def)
  ultimately show ?thesis by simp
qed

lemma canonical_poly_Add: "canonical (poly_Add a b m)"
  by (simp add: poly_Add_def canonical_trim)

lemma composition_loop_unrolled:
  assumes "squeeze3 env ch0 = ([b0, b1, b2], ch3)"
  shows "composition_loop env [c1, c2, c3] 0 cp0 ch0 =
     (poly_Add (poly_Add (poly_Add cp0
         (poly_Mul c1 (NewPolynomialBigInt b0) (Modulus (PrimeField env))) (Modulus (PrimeField env)))
         (poly_Mul c2 (NewPolynomialBigInt b1) (Modulus (PrimeField env))) (Modulus (PrimeField env)))
         (poly_Mul c3 (NewPolynomialBigInt b2) (Modulus (PrimeField env))) (Modulus (PrimeField env)),
      ch3)"
  using assms
  by (simp add: squeeze3_def composition_loop.simps [of _ _ 0]
      composition_loop.simps [of _ _ "Suc 0"] composition_loop.simps [of _ _ "Suc (Suc 0)"]
      composition_loop.simps [of _ _ "Suc (Suc (Suc 0))"] split: prod.splits)

text \<open>Horner evaluation is the value of the coefficient sum, reduced.\<close>

lemma Eval_as_sum: "Eval cs x m = (\<Sum>k<length cs. cs ! k * x ^ k) mod m"
proof (induction cs)
  case Nil
  show ?case by (simp add: Eval_def)
next
  case (Cons c cs)
  have "Eval (c # cs) x m = (c + x * Eval cs x m) mod m"
    by (simp add: Eval_def)
  also have "\<dots> = (c + x * (\<Sum>k<length cs. cs ! k * x ^ k)) mod m"
    unfolding Cons.IH by (intro mod_add_cong mod_mult_cong) simp_all
  also have "c + x * (\<Sum>k<length cs. cs ! k * x ^ k) = (\<Sum>k<length (c # cs). (c # cs) ! k * x ^ k)"
    by (simp add: sum.lessThan_Suc_shift sum_distrib_left mult_ac del: sum.lessThan_Suc)
  finally show ?case .
qed

lemma sum_coeff_extend:
  assumes "length cs \<le> N"
  shows "(\<Sum>k<N. coeff cs k * x ^ k) = (\<Sum>k<length cs. cs ! k * x ^ k)"
proof -
  have "(\<Sum>k<N. coeff cs k * x ^ k) = (\<Sum>k\<in>{..<length cs}. coeff cs k * x ^ k)"
    using assms by (intro sum.mono_neutral_right) (auto simp: coeff_def)
  also have "\<dots> = (\<Sum>k<length cs. cs ! k * x ^ k)"
    by (intro sum.cong) (auto simp: coeff_def)
  finally show ?thesis .
qed

lemma Eval_coeff: "length cs \<le> N \<Longrightarrow> Eval cs x m = (\<Sum>k<N. coeff cs k * x ^ k) mod m"
  by (simp add: Eval_as_sum sum_coeff_extend)

lemma mod_sum_coeff:
  fixes m :: int and N :: nat
  shows "(\<Sum>k<N. (f k mod m) * g k) mod m = (\<Sum>k<N. f k * g k) mod m"
proof (induction N)
  case 0
  show ?case by simp
next
  case (Suc N)
  have "(\<Sum>k<Suc N. (f k mod m) * g k) mod m
        = ((\<Sum>k<N. (f k mod m) * g k) mod m + (f N mod m) * g N) mod m"
    by (simp add: mod_simps)
  also have "\<dots> = ((\<Sum>k<N. f k * g k) mod m + f N * g N) mod m"
    unfolding Suc.IH by (intro mod_add_cong mod_mult_cong) simp_all
  also have "\<dots> = (\<Sum>k<Suc N. f k * g k) mod m"
    by (simp add: mod_simps)
  finally show ?case .
qed

lemma Eval_of_combination:
  assumes "\<forall>k. coeff cp k = (b0 * coeff c1 k + b1 * coeff c2 k + b2 * coeff c3 k) mod m"
  shows "Eval cp x m = (b0 * Eval c1 x m + b1 * Eval c2 x m + b2 * Eval c3 x m) mod m"
proof -
  define N where "N = max (length cp) (max (length c1) (max (length c2) (length c3)))"
  have le: "length cp \<le> N" "length c1 \<le> N" "length c2 \<le> N" "length c3 \<le> N"
    by (simp_all add: N_def)
  let ?S = "\<lambda>cs. \<Sum>k<N. coeff cs k * x ^ k"
  have "Eval cp x m = (\<Sum>k<N. ((b0 * coeff c1 k + b1 * coeff c2 k + b2 * coeff c3 k) mod m) * x ^ k) mod m"
    using assms by (simp add: Eval_coeff [OF le(1)])
  also have "\<dots> = (\<Sum>k<N. (b0 * coeff c1 k + b1 * coeff c2 k + b2 * coeff c3 k) * x ^ k) mod m"
    by (rule mod_sum_coeff)
  also have "(\<Sum>k<N. (b0 * coeff c1 k + b1 * coeff c2 k + b2 * coeff c3 k) * x ^ k)
             = b0 * ?S c1 + b1 * ?S c2 + b2 * ?S c3"
    by (simp add: sum.distrib sum_distrib_left algebra_simps)
  also have "(b0 * ?S c1 + b1 * ?S c2 + b2 * ?S c3) mod m
             = (b0 * (?S c1 mod m) + b1 * (?S c2 mod m) + b2 * (?S c3 mod m)) mod m"
    by (intro mod_add_cong mod_mult_cong) simp_all
  also have "\<dots> = (b0 * Eval c1 x m + b1 * Eval c2 x m + b2 * Eval c3 x m) mod m"
    by (simp add: Eval_coeff [OF le(2)] Eval_coeff [OF le(3)] Eval_coeff [OF le(4)])
  finally show ?thesis .
qed

lemma squeeze3_reduced:
  assumes "squeeze3 env ch0 = ([b0, b1, b2], ch3)" and "0 < Modulus (PrimeField env)"
  shows "\<forall>b \<in> set [b0, b1, b2]. 0 \<le> b \<and> b < Modulus (PrimeField env)"
  using assms
  by (auto simp: squeeze3_def RandFE_def Let_def split: prod.splits)

text \<open>
  C4. Let \<open>b0\<close>, \<open>b1\<close>, \<open>b2\<close> be the values that three squeezes in a row draw from the
  channel, in this order. The composition loop, started on the zero polynomial and the
  constraints \<open>c1\<close>, \<open>c2\<close>, \<open>c3\<close>, draws exactly these (it leaves the channel as the three
  squeezes leave it) and returns the polynomial \<open>b0 \<cdot> c1 + b1 \<cdot> c2 + b2 \<cdot> c3\<close> over the
  field: its canonical form, every coefficient being that of the combination mod \<open>q\<close>,
  so that at every point \<open>x\<close> it evaluates to \<open>b0 \<cdot> c1(x) + b1 \<cdot> c2(x) + b2 \<cdot> c3(x)\<close>
  mod \<open>q\<close>. Over a modulus \<open>q > 0\<close> the three values are field elements (in \<open>[0, q)\<close>).
\<close>

theorem composition_is_linear_combination:
  assumes "squeeze3 env ch0 = ([b0, b1, b2], ch3)"
    and "composition_loop env [c1, c2, c3] 0 (NewPolynomialInts [0]) ch0 = (cp, ch')"
  shows "ch' = ch3 \<and> canonical cp
       \<and> (\<forall>k. coeff cp k =
                (b0 * coeff c1 k + b1 * coeff c2 k + b2 * coeff c3 k) mod Modulus (PrimeField env))
       \<and> (\<forall>x. Eval cp x (Modulus (PrimeField env)) =
                (b0 * Eval c1 x (Modulus (PrimeField env))
                 + b1 * Eval c2 x (Modulus (PrimeField env))
                 + b2 * Eval c3 x (Modulus (PrimeField env))) mod Modulus (PrimeField env))
       \<and> (0 < Modulus (PrimeField env) \<longrightarrow>
            (\<forall>b \<in> set [b0, b1, b2]. 0 \<le> b \<and> b < Modulus (PrimeField env)))"
proof -
  let ?m = "Modulus (PrimeField env)"
  from composition_loop_unrolled [OF assms(1), of c1 c2 c3 "NewPolynomialInts [0]"] assms(2)
  have ch: "ch' = ch3"
    and cp: "cp = poly_Add (poly_Add (poly_Add (NewPolynomialInts [0])
         (poly_Mul c1 (NewPolynomialBigInt b0) ?m) ?m)
         (poly_Mul c2 (NewPolynomialBigInt b1) ?m) ?m)
         (poly_Mul c3 (NewPolynomialBigInt b2) ?m) ?m"
    by simp_all
  have z: "coeff (NewPolynomialInts [0]) k = 0" for k
    by (simp add: NewPolynomialInts_def coeff_trim) (simp add: coeff_def)
  have co: "\<forall>k. coeff cp k = (b0 * coeff c1 k + b1 * coeff c2 k + b2 * coeff c3 k) mod ?m"
    unfolding cp
    by (simp add: coeff_poly_Add coeff_poly_Mul_const NewPolynomialBigInt_def z mod_simps
        mult.commute)
  have "\<forall>x. Eval cp x ?m = (b0 * Eval c1 x ?m + b1 * Eval c2 x ?m + b2 * Eval c3 x ?m) mod ?m"
    using Eval_of_combination [OF co] by blast
  moreover note co
  moreover have "canonical cp"
    unfolding cp by (rule canonical_poly_Add)
  moreover have "0 < ?m \<longrightarrow> (\<forall>b \<in> set [b0, b1, b2]. 0 \<le> b \<and> b < ?m)"
    using squeeze3_reduced [OF assms(1)] by blast
  ultimately show ?thesis using ch by blast
qed

theorem composition_is_linear_combination_witness:
  "squeeze3 example_env NewChannel
     = ([5, 8, 1], \<lparr>State = [205, 102], Proof = [''5'', ''8'', ''1'']\<rparr>)
   \<and> composition_loop example_env [[1, 2, 3], [3, 1], [1, 2]] 0 (NewPolynomialInts [0]) NewChannel
     = ([13, 3, 15], \<lparr>State = [205, 102], Proof = [''5'', ''8'', ''1'']\<rparr>)
   \<and> canonical [13, 3, 15]
   \<and> coeff [13, 3, 15] 1
     = (5 * coeff [1, 2, 3] 1 + 8 * coeff [3, 1] 1 + 1 * coeff [1, 2] 1)
         mod Modulus (PrimeField example_env)
   \<and> Eval [13, 3, 15] 2 (Modulus (PrimeField example_env))
     = (5 * Eval [1, 2, 3] 2 (Modulus (PrimeField example_env))
        + 8 * Eval [3, 1] 2 (Modulus (PrimeField example_env))
        + 1 * Eval [1, 2] 2 (Modulus (PrimeField example_env)))
         mod Modulus (PrimeField example_env)"
proof -
  have h1: "squeeze3 example_env NewChannel
     = ([5, 8, 1], \<lparr>State = [205, 102], Proof = [''5'', ''8'', ''1'']\<rparr>)"
    by code_simp
  have h2: "composition_loop example_env [[1, 2, 3], [3, 1], [1, 2]] 0 (NewPolynomialInts [0])
              NewChannel
     = ([13, 3, 15], \<lparr>State = [205, 102], Proof = [''5'', ''8'', ''1'']\<rparr>)"
    by code_simp
  from composition_is_linear_combination [OF h1 h2]
  have "canonical [13, 3, 15]"
    and "coeff [13, 3, 15] 1
     = (5 * coeff [1, 2, 3] 1 + 8 * coeff [3, 1] 1 + 1 * coeff [1, 2] 1)
         mod Modulus (PrimeField example_env)"
    and "Eval [13, 3, 15] 2 (Modulus (PrimeField example_env))
     = (5 * Eval [1, 2, 3] 2 (Modulus (PrimeField example_env))
        + 8 * Eval [3, 1] 2 (Modulus (PrimeField example_env))
        + 1 * Eval [1, 2] 2 (Modulus (PrimeField example_env)))
         mod Modulus (PrimeField example_env)"
    by blast+
  with h1 h2 show ?thesis by blast
qed

section \<open>Properties of the prover's transcript\<close>

lemma Proof_Send: "Proof (Send H bytes ch) = Proof ch @ [hex bytes]"
  by (simp add: Send_def)

lemma Proof_RandFE:
  "Proof (snd (RandFE H tg m ch)) = Proof ch @ [decimal (fst (RandFE H tg m ch))]"
  by (simp add: RandFE_def Let_def)

lemma FRI_commit_loop_log_extends:
  "\<exists>ext. Proof (snd (FRI_commit_loop env cs d acc ch)) = Proof ch @ ext"
proof (induction env cs d acc ch rule: FRI_commit_loop.induct)
  case (1 env cs d acc ch)
  show ?case
  proof (cases "0 < Degree cs")
    case False
    then show ?thesis by (simp add: FRI_commit_loop.simps [of env cs d acc ch])
  next
    case True
    let ?m = "Modulus (PrimeField env)"
    obtain beta ch1 where r: "RandFE (sha256 env) (tag env) ?m ch = (beta, ch1)"
      by (cases "RandFE (sha256 env) (tag env) ?m ch") auto
    define cs' where "cs' = fold_poly cs beta ?m"
    define d' where "d' = next_domain d ?m"
    define e' where "e' = next_layer cs' d' ?m"
    define r' where "r' = DomainHash env e'"
    define ch2 where "ch2 = Send (sha256 env) r' ch1"
    define acc' where "acc' = \<lparr>friDomains = friDomains acc @ [d'], friPolys = friPolys acc @ [cs'],
                    friLayers = friLayers acc @ [e'], friRoots = friRoots acc @ [r']\<rparr>"
    from "1.IH" [OF True r [symmetric] cs'_def d'_def e'_def r'_def ch2_def]
    obtain ext where ext: "Proof (snd (FRI_commit_loop env cs' d' acc' ch2)) = Proof ch2 @ ext"
      unfolding acc'_def by blast
    have unfold: "FRI_commit_loop env cs d acc ch = FRI_commit_loop env cs' d' acc' ch2"
      using True r
      by (simp add: FRI_commit_loop.simps [of env cs d acc ch] Let_def
          cs'_def d'_def e'_def r'_def ch2_def acc'_def)
    have "Proof ch1 = Proof ch @ [decimal beta]"
      using Proof_RandFE [of "sha256 env" "tag env" ?m ch] r by simp
    then have "Proof ch2 = Proof ch @ [decimal beta, hex r']"
      by (simp add: ch2_def Proof_Send)
    with ext unfold show ?thesis by simp
  qed
qed

lemma FRI_commit_loop_first_entry:
  assumes "0 < Degree cs"
  shows "\<exists>rest. Proof (snd (FRI_commit_loop env cs d acc ch)) =
           Proof ch @ decimal (fst (RandFE (sha256 env) (tag env) (Modulus (PrimeField env)) ch))
             # rest"
proof -
  let ?m = "Modulus (PrimeField env)"
  obtain beta ch1 where r: "RandFE (sha256 env) (tag env) ?m ch = (beta, ch1)"
    by (cases "RandFE (sha256 env) (tag env) ?m ch") auto
  define cs' where "cs' = fold_poly cs beta ?m"
  define d' where "d' = next_domain d ?m"
  define e' where "e' = next_layer cs' d' ?m"
  define r' where "r' = DomainHash env e'"
  define ch2 where "ch2 = Send (sha256 env) r' ch1"
  define acc' where "acc' = \<lparr>friDomains = friDomains acc @ [d'], friPolys = friPolys acc @ [cs'],
                  friLayers = friLayers acc @ [e'], friRoots = friRoots acc @ [r']\<rparr>"
  have unfold: "FRI_commit_loop env cs d acc ch = FRI_commit_loop env cs' d' acc' ch2"
    using assms r
    by (simp add: FRI_commit_loop.simps [of env cs d acc ch] Let_def
        cs'_def d'_def e'_def r'_def ch2_def acc'_def)
  obtain ext where ext: "Proof (snd (FRI_commit_loop env cs' d' acc' ch2)) = Proof ch2 @ ext"
    using FRI_commit_loop_log_extends by blast
  have "Proof ch1 = Proof ch @ [decimal beta]"
    using Proof_RandFE [of "sha256 env" "tag env" ?m ch] r by simp
  then have "Proof ch2 = Proof ch @ [decimal beta, hex r']"
    by (simp add: ch2_def Proof_Send)
  with ext unfold r show ?thesis by simp
qed

lemma squeeze3_log:
  assumes "squeeze3 env ch0 = ([b0, b1, b2], ch3)"
  shows "Proof ch3 = Proof ch0 @ [decimal b0, decimal b1, decimal b2]"
  using assms
  by (auto simp: squeeze3_def RandFE_def Let_def split: prod.splits)

lemma squeeze3_shape: "\<exists>b0 b1 b2 ch3. squeeze3 env ch0 = ([b0, b1, b2], ch3)"
  by (simp add: squeeze3_def split: prod.splits)

lemma main_composition_channel:
  assumes "main_composition env params = (cp, ch)"
  shows "\<exists>b0 b1 b2.
           squeeze3 env (Send (sha256 env) (EvaluationRoot params) NewChannel) = ([b0, b1, b2], ch)
         \<and> Proof ch = [hex (EvaluationRoot params), decimal b0, decimal b1, decimal b2]"
proof -
  let ?c0 = "Send (sha256 env) (EvaluationRoot params) NewChannel"
  obtain b0 b1 b2 ch3 where s: "squeeze3 env ?c0 = ([b0, b1, b2], ch3)"
    using squeeze3_shape by blast
  obtain c1 c2 c3 where g:
    "GenerateProgramConstraints env (Clone (Polynomial params) 0) (GeneratorG params) = (c1, c2, c3)"
    by (cases "GenerateProgramConstraints env (Clone (Polynomial params) 0) (GeneratorG params)") auto
  from assms g have "composition_loop env [c1, c2, c3] 0 (NewPolynomialInts [0]) ?c0 = (cp, ch)"
    by (simp add: main_composition_def Let_def)
  with composition_loop_unrolled [OF s, of c1 c2 c3 "NewPolynomialInts [0]"]
  have "ch = ch3" by simp
  moreover have "Proof ?c0 = [hex (EvaluationRoot params)]"
    by (simp add: Proof_Send NewChannel_def)
  ultimately show ?thesis using s squeeze3_log [OF s] by simp
qed

text \<open>
  C6. The root \<open>R\<^sub>0\<close> of the composition evaluations is sent to the channel before the
  first FRI challenge is squeezed. \<^verbatim>\<open>TestZKGen/TestProve\<close> does so (lemma
  \<open>TestProve_sends_root_first\<close>); \<^verbatim>\<open>main\<close> does not. Whenever \<^verbatim>\<open>main\<close> completes and the
  composition polynomial has positive degree, its transcript starts with the root of
  the trace evaluations and the three composition challenges, and the next entry is
  the first FRI challenge, squeezed from the channel as the composition loop left it:
  no \<^verbatim>\<open>Send\<close> of \<open>R\<^sub>0\<close> comes before it.
\<close>

theorem main_draws_FRI_challenge_without_sending_root:
  assumes "main env params = Inr (res, chF)"
    and "main_composition env params = (cp, ch)"
    and "0 < Degree cp"
  shows "\<exists>b0 b1 b2 rest.
           squeeze3 env (Send (sha256 env) (EvaluationRoot params) NewChannel) = ([b0, b1, b2], ch)
         \<and> Proof chF =
             [hex (EvaluationRoot params), decimal b0, decimal b1, decimal b2,
              decimal (fst (RandFE (sha256 env) (tag env) (Modulus (PrimeField env)) ch))] @ rest"
proof -
  from main_composition_channel [OF assms(2)] obtain b0 b1 b2 where
    s: "squeeze3 env (Send (sha256 env) (EvaluationRoot params) NewChannel) = ([b0, b1, b2], ch)"
    and l: "Proof ch = [hex (EvaluationRoot params), decimal b0, decimal b1, decimal b2]"
    by blast
  from assms(1,2) obtain evals where
    "evaluate_on_domain env cp (EvaluationDomain params) = Inr evals"
    and "(res, chF) = GenerateFRICommitment env cp (EvaluationDomain params) evals
                        (DomainHash env evals) ch"
    by (auto simp: main_def Let_def split: sum.splits)
  then have chF: "chF = snd (FRI_commit_loop env cp (EvaluationDomain params)
       \<lparr>friDomains = [EvaluationDomain params], friPolys = [cp], friLayers = [evals],
        friRoots = [DomainHash env evals]\<rparr> ch)"
    by (metis GenerateFRICommitment_def snd_conv)
  from FRI_commit_loop_first_entry [OF assms(3)] obtain rest where
    "Proof chF = Proof ch
       @ decimal (fst (RandFE (sha256 env) (tag env) (Modulus (PrimeField env)) ch)) # rest"
    unfolding chF by blast
  with l s show ?thesis by simp
qed

lemma TestProve_sends_root_first:
  assumes "TestProve_commit env params ch0 c1 c2 c3 = Inr (res, chF)"
    and "composition_loop env [c1, c2, c3] 0 (NewPolynomialInts [0]) ch0 = (cp, ch)"
    and "evaluate_on_domain env cp (EvaluationDomain params) = Inr evals"
    and "0 < Degree cp"
  shows "\<exists>rest. Proof chF =
           Proof ch @ [hex (DomainHash env evals),
             decimal (fst (RandFE (sha256 env) (tag env) (Modulus (PrimeField env))
                             (Send (sha256 env) (DomainHash env evals) ch)))] @ rest"
proof -
  let ?ch2 = "Send (sha256 env) (DomainHash env evals) ch"
  from assms(1,2,3) have "(res, chF) = GenerateFRICommitment env cp (EvaluationDomain params)
       evals (DomainHash env evals) ?ch2"
    by (simp add: TestProve_commit_def Let_def)
  then have chF: "chF = snd (FRI_commit_loop env cp (EvaluationDomain params)
       \<lparr>friDomains = [EvaluationDomain params], friPolys = [cp], friLayers = [evals],
        friRoots = [DomainHash env evals]\<rparr> ?ch2)"
    by (metis GenerateFRICommitment_def snd_conv)
  from FRI_commit_loop_first_entry [OF assms(4)] obtain rest where
    "Proof chF = Proof ?ch2
       @ decimal (fst (RandFE (sha256 env) (tag env) (Modulus (PrimeField env)) ?ch2)) # rest"
    unfolding chF by blast
  then show ?thesis by (simp add: Proof_Send)
qed

theorem main_draws_FRI_challenge_without_sending_root_witness:
  "main example_env example_params = Inr
     (\<lparr>friDomains = [map (\<lambda>x. \<lparr>n = x, p = \<lparr>q = 17\<rparr>\<rparr>) [1, 2, 4, 8],
                     map (\<lambda>x. \<lparr>n = x, p = \<lparr>q = 17\<rparr>\<rparr>) [1, 4],
                     map (\<lambda>x. \<lparr>n = x, p = \<lparr>q = 17\<rparr>\<rparr>) [1]],
       friPolys = [[14, 3, 13], [15, 13], [3]],
       friLayers = [map (\<lambda>x. \<lparr>n = x, p = \<lparr>q = 17\<rparr>\<rparr>) [13, 4, 13, 3],
                    map (\<lambda>x. \<lparr>n = x, p = \<lparr>q = 17\<rparr>\<rparr>) [11, 16],
                    map (\<lambda>x. \<lparr>n = x, p = \<lparr>q = 17\<rparr>\<rparr>) [3]],
       friRoots = [[13, 4, 13, 3], [11, 16], [3]]\<rparr>,
      \<lparr>State = [23, 68],
       Proof = [''abcd'', ''10'', ''5'', ''6'', ''6'', ''0b10'', ''3'', ''03'']\<rparr>)
   \<and> main_composition example_env example_params =
       ([14, 3, 13], \<lparr>State = [253, 246], Proof = [''abcd'', ''10'', ''5'', ''6'']\<rparr>)
   \<and> 0 < Degree [14, 3, 13]
   \<and> hex [13, 4, 13, 3] = ''0d040d03''
   \<and> (\<exists>b0 b1 b2 rest.
         squeeze3 example_env
           (Send (sha256 example_env) (EvaluationRoot example_params) NewChannel)
           = ([b0, b1, b2], \<lparr>State = [253, 246], Proof = [''abcd'', ''10'', ''5'', ''6'']\<rparr>)
       \<and> [''abcd'', ''10'', ''5'', ''6'', ''6'', ''0b10'', ''3'', ''03''] =
           [hex (EvaluationRoot example_params), decimal b0, decimal b1, decimal b2,
            decimal (fst (RandFE (sha256 example_env) (tag example_env)
                            (Modulus (PrimeField example_env))
                            \<lparr>State = [253, 246], Proof = [''abcd'', ''10'', ''5'', ''6'']\<rparr>))]
           @ rest)"
proof -
  have h1: "main example_env example_params = Inr
     (\<lparr>friDomains = [map (\<lambda>x. \<lparr>n = x, p = \<lparr>q = 17\<rparr>\<rparr>) [1, 2, 4, 8],
                     map (\<lambda>x. \<lparr>n = x, p = \<lparr>q = 17\<rparr>\<rparr>) [1, 4],
                     map (\<lambda>x. \<lparr>n = x, p = \<lparr>q = 17\<rparr>\<rparr>) [1]],
       friPolys = [[14, 3, 13], [15, 13], [3]],
       friLayers = [map (\<lambda>x. \<lparr>n = x, p = \<lparr>q = 17\<rparr>\<rparr>) [13, 4, 13, 3],
                    map (\<lambda>x. \<lparr>n = x, p = \<lparr>q = 17\<rparr>\<rparr>) [11, 16],
                    map (\<lambda>x. \<lparr>n = x, p = \<lparr>q = 17\<rparr>\<rparr>) [3]],
       friRoots = [[13, 4, 13, 3], [11, 16], [3]]\<rparr>,
      \<lparr>State = [23, 68],
       Proof = [''abcd'', ''10'', ''5'', ''6'', ''6'', ''0b10'', ''3'', ''03'']\<rparr>)"
    by code_simp
  have h2: "main_composition example_env example_params =
       ([14, 3, 13], \<lparr>State = [253, 246], Proof = [''abcd'', ''10'', ''5'', ''6'']\<rparr>)"
    by code_simp
  have h3: "0 < Degree [14, 3, 13]"
    by code_simp
  have h4: "hex [13, 4, 13, 3] = ''0d040d03''"
    by code_simp
  from main_draws_FRI_challenge_without_sending_root [OF h1 h2 h3] h1 h2 h3 h4
  show ?thesis by simp
qed


end
